theory Spec2Isabelle
  imports Main "HOL-Library.Monad_Syntax" "HOL-Library.Multiset" "HOL-Library.Char_ord"
begin

section \<open>Common machinery\<close>

text \<open>
  A grid is a Python list (or tuple) of rows, each row a list (or tuple) of strings.
  A computation that may raise (\<open>IndexError\<close>, \<open>AssertionError\<close>, \<open>TypeError\<close>) is a
  value of type \<open>'a option\<close>; \<open>None\<close> stands for the raised exception.
\<close>

type_synonym grid = "string list list"

text \<open>\<open>g[i][j]\<close> for indices \<open>i, j \<ge> 0\<close>: raises \<open>IndexError\<close> out of range.\<close>

definition cell :: "grid \<Rightarrow> nat \<Rightarrow> nat \<Rightarrow> string option" where
  "cell g i j = (if i < length g \<and> j < length (g ! i) then Some (g ! i ! j) else None)"

text \<open>\<open>g[i][j] = v\<close> on a list of lists, for indices \<open>i, j \<ge> 0\<close>; the result is the
  updated grid.\<close>

definition put_cell :: "grid \<Rightarrow> nat \<Rightarrow> nat \<Rightarrow> string \<Rightarrow> grid" where
  "put_cell g i j v = g[i := (g ! i)[j := v]]"

definition set_cell :: "grid \<Rightarrow> nat \<Rightarrow> nat \<Rightarrow> string \<Rightarrow> grid option" where
  "set_cell g i j v =
     (if i < length g \<and> j < length (g ! i) then Some (put_cell g i j v) else None)"


text \<open>\<open>for x in xs: s = body(x, s)\<close>, stopping at the first exception.\<close>

fun for_each :: "('a \<Rightarrow> 's \<Rightarrow> 's option) \<Rightarrow> 'a list \<Rightarrow> 's \<Rightarrow> 's option" where
  "for_each body [] s = Some s"
| "for_each body (x # xs) s = do { s' \<leftarrow> body x s; for_each body xs s' }"

text \<open>The markers of the source, as named constants: \<open>"*"\<close> for a peg, \<open>"."\<close> for an
  empty cell, \<open>"#"\<close> for an unused cell; in the sliding-tile puzzle \<open>"*"\<close> is the blank.\<close>

definition PEG :: string where "PEG = ''*''"

definition EMPTY :: string where "EMPTY = ''.''"

definition UNUSED :: string where "UNUSED = ''#''"

definition BLANK :: string where "BLANK = ''*''"

section \<open>Grid peg solitaire\<close>

record peg_puzzle =
  marker :: grid
  marker_set :: "string set"

text \<open>The constructor: its five assertions, in the source's order (the first,
  \<open>isinstance(marker, list)\<close>, holds by typing).\<close>

definition GridPegSolitairePuzzle_init :: "grid \<Rightarrow> string set \<Rightarrow> peg_puzzle option" where
  "GridPegSolitairePuzzle_init mk ms =
     (if \<not> length mk > 0 then None
      else if \<not> (\<forall>x \<in> set (tl mk). length x = length (mk ! 0)) then None
      else if \<not> (\<forall>row \<in> set mk. \<forall>x \<in> set row. x \<in> ms) then None
      else if \<not> (\<forall>x \<in> ms. x = PEG \<or> x = EMPTY \<or> x = UNUSED) then None
      else Some \<lparr>marker = mk, marker_set = ms\<rparr>)"





text \<open>\<open>marker[0]\<close> raises \<open>IndexError\<close> on an empty list.\<close>

definition first_row :: "grid \<Rightarrow> string list option" where
  "first_row g = (case g of [] \<Rightarrow> None | r # _ \<Rightarrow> Some r)"


definition GridPegSolitairePuzzle_is_solved :: "peg_puzzle \<Rightarrow> bool option" where
  "GridPegSolitairePuzzle_is_solved self = do {
     m \<leftarrow> Some (length (marker self));
     r0 \<leftarrow> first_row (marker self);
     n \<leftarrow> Some (length r0);
     count \<leftarrow> for_each (\<lambda>i. for_each (\<lambda>j count. do {
                  c \<leftarrow> cell (marker self) i j;
                  Some (if c = PEG then count + 1 else count) }) [0..<n]) [0..<m] (0::int);
     Some (count = 1) }"

text \<open>Specification side: the number of cells of the whole grid that hold a peg.\<close>

definition peg_count :: "grid \<Rightarrow> nat" where
  "peg_count g = count_list (concat g) PEG"








section \<open>The n x m sliding-tile puzzle\<close>

record mn_puzzle =
  mn_n :: nat
  mn_m :: nat
  from_grid :: grid
  to_grid :: grid

text \<open>The constructor with its three assertions. \<open>to_grid[0]\<close> is only evaluated once per
  row of \<open>to_grid\<close>, so an empty \<open>to_grid\<close> passes.\<close>

definition MNPuzzle_init :: "grid \<Rightarrow> grid \<Rightarrow> mn_puzzle option" where
  "MNPuzzle_init fg tg =
     (if \<not> length fg > 0 then None
      else if \<not> (\<forall>r \<in> set fg. length r = length (fg ! 0)) then None
      else if \<not> (\<forall>r \<in> set tg. length r = length (tg ! 0)) then None
      else Some \<lparr>mn_n = length fg, mn_m = length (fg ! 0), from_grid = fg, to_grid = tg\<rparr>)"

text \<open>\<open>index_of_space\<close>: the two nested loops with their early return. The inner \<open>option\<close>
  is Python's result, \<open>None\<close> when the loops end without returning.\<close>

fun scan_row :: "grid \<Rightarrow> nat \<Rightarrow> nat list \<Rightarrow> (nat \<times> nat) option option" where
  "scan_row g i [] = Some None"
| "scan_row g i (j # js) =
     do { c \<leftarrow> cell g i j; if c = BLANK then Some (Some (i, j)) else scan_row g i js }"

fun scan_rows :: "grid \<Rightarrow> nat list \<Rightarrow> nat list \<Rightarrow> (nat \<times> nat) option option" where
  "scan_rows g [] js = Some None"
| "scan_rows g (i # is) js =
     do { r \<leftarrow> scan_row g i js;
          case r of Some ij \<Rightarrow> Some (Some ij) | None \<Rightarrow> scan_rows g is js }"

definition MNPuzzle_index_of_space :: "mn_puzzle \<Rightarrow> (nat \<times> nat) option option" where
  "MNPuzzle_index_of_space self =
     scan_rows (from_grid self) [0..<mn_n self] [0..<mn_m self]"

text \<open>\<open>convert_tuple\<close> and \<open>convert_list\<close> copy a grid between tuples and lists; on values
  both are the identity.\<close>

definition MNPuzzle_convert_tuple :: "mn_puzzle \<Rightarrow> grid" where
  "MNPuzzle_convert_tuple self = from_grid self"

definition MNPuzzle_convert_list :: "mn_puzzle \<Rightarrow> grid \<Rightarrow> grid" where
  "MNPuzzle_convert_list self puzzle_list = puzzle_list"

text \<open>The body shared by the four branches: \<open>new_grid[r][c] = new_grid[r'][c']\<close>,
  \<open>new_grid[r'][c'] = "*"\<close>, then the new puzzle is appended.\<close>

definition MNPuzzle_swap ::
  "mn_puzzle \<Rightarrow> nat \<Rightarrow> nat \<Rightarrow> nat \<Rightarrow> nat \<Rightarrow> mn_puzzle list \<Rightarrow> mn_puzzle list option" where
  "MNPuzzle_swap self r c r' c' configurations = do {
     new_grid \<leftarrow> Some (MNPuzzle_convert_tuple self);
     v \<leftarrow> cell new_grid r' c';
     new_grid \<leftarrow> set_cell new_grid r c v;
     new_grid \<leftarrow> set_cell new_grid r' c' BLANK;
     q \<leftarrow> MNPuzzle_init (MNPuzzle_convert_list self new_grid) (to_grid self);
     Some (configurations @ [q]) }"

text \<open>\<open>empty_index[0]\<close> raises \<open>TypeError\<close> when \<open>index_of_space\<close> returned \<open>None\<close>: the
  binding of the pair is then \<open>None\<close>.\<close>

definition MNPuzzle_row_configs :: "mn_puzzle \<Rightarrow> mn_puzzle list option" where
  "MNPuzzle_row_configs self = do {
     configurations \<leftarrow> Some [];
     empty_index \<leftarrow> MNPuzzle_index_of_space self;
     (n_value, m_value) \<leftarrow> empty_index;
     configurations \<leftarrow>
       (if m_value + 1 < mn_m self
        then MNPuzzle_swap self n_value m_value n_value (m_value + 1) configurations
        else Some configurations);
     (if int m_value - 1 \<ge> 0
      then MNPuzzle_swap self n_value m_value n_value (m_value - 1) configurations
      else Some configurations) }"

definition MNPuzzle_col_configs :: "mn_puzzle \<Rightarrow> mn_puzzle list option" where
  "MNPuzzle_col_configs self = do {
     configurations \<leftarrow> Some [];
     empty_index \<leftarrow> MNPuzzle_index_of_space self;
     (n_value, m_value) \<leftarrow> empty_index;
     configurations \<leftarrow>
       (if n_value + 1 < mn_n self
        then MNPuzzle_swap self n_value m_value (n_value + 1) m_value configurations
        else Some configurations);
     (if int n_value - 1 \<ge> 0
      then MNPuzzle_swap self n_value m_value (n_value - 1) m_value configurations
      else Some configurations) }"

definition MNPuzzle_extensions :: "mn_puzzle \<Rightarrow> mn_puzzle list option" where
  "MNPuzzle_extensions self = do {
     rs \<leftarrow> MNPuzzle_row_configs self;
     cs \<leftarrow> MNPuzzle_col_configs self;
     Some (rs @ cs) }"

text \<open>Specification side: the number of blank cells, the grid with two cells exchanged
  (cell by cell), and the four orthogonal neighbours in the order right, left, down, up.\<close>

definition blank_count :: "grid \<Rightarrow> nat" where
  "blank_count g = count_list (concat g) BLANK"

definition exchanged :: "grid \<Rightarrow> nat \<times> nat \<Rightarrow> nat \<times> nat \<Rightarrow> grid" where
  "exchanged g a b =
     map (\<lambda>r. map (\<lambda>c.
            if (r, c) = a then g ! fst b ! snd b
            else if (r, c) = b then g ! fst a ! snd a
            else g ! r ! c) [0..<length (g ! r)]) [0..<length g]"

definition neighbours :: "nat \<Rightarrow> nat \<Rightarrow> (int \<times> int) list" where
  "neighbours r c =
     [(int r, int c + 1), (int r, int c - 1), (int r + 1, int c), (int r - 1, int c)]"

definition in_bounds :: "nat \<Rightarrow> nat \<Rightarrow> int \<times> int \<Rightarrow> bool" where
  "in_bounds n m p = (0 \<le> fst p \<and> fst p < int n \<and> 0 \<le> snd p \<and> snd p < int m)"

definition corner :: "nat \<Rightarrow> nat \<Rightarrow> nat \<Rightarrow> nat \<Rightarrow> bool" where
  "corner n m r c = ((r = 0 \<or> r + 1 = n) \<and> (c = 0 \<or> c + 1 = m))"

definition on_edge :: "nat \<Rightarrow> nat \<Rightarrow> nat \<Rightarrow> nat \<Rightarrow> bool" where
  "on_edge n m r c = (r = 0 \<or> r + 1 = n \<or> c = 0 \<or> c + 1 = m)"

section \<open>Word ladder\<close>

record wl_puzzle =
  from_word :: string
  to_word :: string
  word_set :: "string set"
  chars :: string

definition WordLadderPuzzle_init :: "string \<Rightarrow> string \<Rightarrow> string set \<Rightarrow> wl_puzzle" where
  "WordLadderPuzzle_init fw tw ws =
     \<lparr>from_word = fw, to_word = tw, word_set = ws, chars = ''abcdefghijklmnopqrstuvwxyz''\<rparr>"

text \<open>
  The order in which Python iterates over a set of characters is not fixed by the
  language, so it is a parameter \<open>iter\<close> of the model: any function that lists each finite
  set without repetition.
\<close>

definition set_iteration :: "(char set \<Rightarrow> char list) \<Rightarrow> bool" where
  "set_iteration iter = (\<forall>S. finite S \<longrightarrow> set (iter S) = S \<and> distinct (iter S))"

text \<open>The candidate \<open>self._from_word[:i] + x + self._from_word[i+1:]\<close>.\<close>

definition candidate :: "string \<Rightarrow> nat \<Rightarrow> char \<Rightarrow> string" where
  "candidate w i x = take i w @ [x] @ drop (i + 1) w"

text \<open>The candidates generated (and tested against the dictionary) for position \<open>i\<close>: one
  per element of \<open>set(self._chars) - set(self._from_word[i])\<close>.\<close>

definition candidates_at :: "(char set \<Rightarrow> char list) \<Rightarrow> wl_puzzle \<Rightarrow> nat \<Rightarrow> string list" where
  "candidates_at iter self i =
     map (candidate (from_word self) i) (iter (set (chars self) - set [from_word self ! i]))"

definition candidates :: "(char set \<Rightarrow> char list) \<Rightarrow> wl_puzzle \<Rightarrow> string list" where
  "candidates iter self =
     concat (map (candidates_at iter self) [0..<length (from_word self)])"

definition WordLadderPuzzle_extensions ::
  "(char set \<Rightarrow> char list) \<Rightarrow> wl_puzzle \<Rightarrow> wl_puzzle list" where
  "WordLadderPuzzle_extensions iter self =
     fold (\<lambda>i configurations. configurations @
             map (\<lambda>w. WordLadderPuzzle_init w (to_word self) (word_set self))
               (filter (\<lambda>w. w \<in> word_set self) (candidates_at iter self i)))
       [0..<length (from_word self)] []"

section \<open>Loops and grids: auxiliary facts\<close>


lemma for_each_fold:
  assumes "\<And>x s. x \<in> set xs \<Longrightarrow> body x s = Some (f x s)"
  shows "for_each body xs s = Some (fold f xs s)"
  using assms by (induction xs arbitrary: s) auto

lemma count_list_app: "count_list (xs @ ys) a = count_list xs a + count_list ys a"
  by (induction xs) auto

lemma fold_count_row:
  "fold (\<lambda>j count. if row ! j = v then count + 1 else count) js (c::int)
     = c + int (count_list (map ((!) row) js) v)"
  by (induction js arbitrary: c) auto

lemma fold_count_rows:
  "fold (\<lambda>i count. count + int (count_list (g ! i) v)) is (c::int)
     = c + int (count_list (concat (map ((!) g) is)) v)"
  by (induction "is" arbitrary: c) (auto simp: count_list_app)

lemma if_chain_Some:
  "((if \<not> A then None else if \<not> B then None else if \<not> C then None
     else if \<not> D then None else Some x) = Some p)
     \<longleftrightarrow> (A \<and> B \<and> C \<and> D \<and> p = x)"
  by auto

lemma rect_hd:
  "mk \<noteq> [] \<Longrightarrow>
   (\<forall>x \<in> set (tl mk). length x = length (mk ! 0)) \<longleftrightarrow> (\<forall>r \<in> set mk. length r = length (hd mk))"
  by (cases mk) simp_all

lemma peg_init_Some:
  "GridPegSolitairePuzzle_init mk ms = Some p \<longleftrightarrow>
     p = \<lparr>marker = mk, marker_set = ms\<rparr> \<and> mk \<noteq> [] \<and> (\<forall>r \<in> set mk. length r = length (hd mk))
     \<and> (\<forall>row \<in> set mk. \<forall>x \<in> set row. x \<in> ms)
     \<and> (\<forall>x \<in> ms. x = PEG \<or> x = EMPTY \<or> x = UNUSED)"
  unfolding GridPegSolitairePuzzle_init_def if_chain_Some
  using rect_hd [of mk] by blast

lemma peg_initD:
  assumes "GridPegSolitairePuzzle_init mk ms = Some p"
  shows "p = \<lparr>marker = mk, marker_set = ms\<rparr>" and "mk \<noteq> []"
    and "\<forall>r \<in> set mk. length r = length (hd mk)"
    and "\<forall>row \<in> set mk. \<forall>x \<in> set row. x \<in> ms"
    and "\<forall>x \<in> ms. x = PEG \<or> x = EMPTY \<or> x = UNUSED"
  using assms unfolding peg_init_Some by blast+

lemma peg_init_marker:
  assumes "GridPegSolitairePuzzle_init mk ms = Some p"
  shows "marker p = mk" and "marker_set p = ms"
  using peg_initD(1) [OF assms] by simp_all

lemma first_row_hd: "g \<noteq> [] \<Longrightarrow> first_row g = Some (hd g)"
  by (cases g) (auto simp: first_row_def)

lemma count_inner:
  assumes "i < length mk" and len: "length (mk ! i) = n"
  shows "for_each (\<lambda>j count. do {
                  c \<leftarrow> cell mk i j;
                  Some (if c = v then count + 1 else count) }) [0..<n] c
        = Some (c + int (count_list (mk ! i) v))"
proof -
  have "for_each (\<lambda>j count. do {
                  c \<leftarrow> cell mk i j;
                  Some (if c = v then count + 1 else count) }) [0..<n] c
        = Some (fold (\<lambda>j count. if (mk ! i) ! j = v then count + 1 else count) [0..<n] c)"
    by (rule for_each_fold) (use assms in \<open>simp add: cell_def\<close>)
  also have "\<dots> = Some (c + int (count_list (map ((!) (mk ! i)) [0..<length (mk ! i)]) v))"
    by (simp only: fold_count_row len)
  finally show ?thesis by (simp add: map_nth)
qed

lemma count_outer:
  assumes rect: "\<forall>r \<in> set mk. length r = n"
  shows "for_each (\<lambda>i. for_each (\<lambda>j count. do {
                  c \<leftarrow> cell mk i j;
                  Some (if c = v then count + 1 else count) }) [0..<n])
                 [0..<length mk] (0::int)
       = Some (int (count_list (concat mk) v))"
proof -
  have "for_each (\<lambda>i. for_each (\<lambda>j count. do {
                  c \<leftarrow> cell mk i j;
                  Some (if c = v then count + 1 else count) }) [0..<n])
                 [0..<length mk] (0::int)
       = Some (fold (\<lambda>i count. count + int (count_list (mk ! i) v)) [0..<length mk] 0)"
    by (rule for_each_fold) (use rect in \<open>simp add: count_inner\<close>)
  then show ?thesis by (simp add: fold_count_rows map_nth)
qed

section \<open>Peg solitaire: grids, jumps and the two scans\<close>


lemma cell_Some: "i < length g \<Longrightarrow> j < length (g ! i) \<Longrightarrow> cell g i j = Some (g ! i ! j)"
  by (simp add: cell_def)

lemma set_cell_Some:
  "i < length g \<Longrightarrow> j < length (g ! i) \<Longrightarrow> set_cell g i j v = Some (put_cell g i j v)"
  by (simp add: set_cell_def)

lemma put_length: "length (put_cell g i j v) = length g"
  by (simp add: put_cell_def)

lemma put_row_length: "r < length g \<Longrightarrow> length (put_cell g i j v ! r) = length (g ! r)"
  by (cases "r = i") (simp_all add: put_cell_def)

lemma put_nth:
  "r < length g \<Longrightarrow> c < length (g ! r) \<Longrightarrow>
   put_cell g i j v ! r ! c = (if r = i \<and> c = j then v else g ! r ! c)"
  by (cases "r = i"; cases "c = j") (simp_all add: put_cell_def)

lemma count_list_update:
  "j < length xs \<Longrightarrow>
   count_list (xs[j := v]) x + (if xs ! j = x then 1 else 0)
     = count_list xs x + (if v = x then 1 else 0)"
proof (induction xs arbitrary: j)
  case Nil
  then show ?case by simp
next
  case (Cons a xs)
  show ?case
  proof (cases j)
    case 0
    then show ?thesis by simp
  next
    case (Suc k)
    with Cons.prems have "k < length xs" by simp
    from Cons.IH [OF this] Suc show ?thesis by (auto split: if_splits)
  qed
qed

lemma count_concat_update:
  "i < length g \<Longrightarrow>
   count_list (concat (g[i := r])) x + count_list (g ! i) x = count_list (concat g) x + count_list r x"
proof (induction g arbitrary: i)
  case Nil
  then show ?case by simp
next
  case (Cons a g)
  show ?case
  proof (cases i)
    case 0
    then show ?thesis by (simp add: count_list_app)
  next
    case (Suc k)
    with Cons.prems have "k < length g" by simp
    from Cons.IH [OF this] Suc show ?thesis by (auto simp: count_list_app)
  qed
qed

lemma count_put:
  assumes "i < length g" "j < length (g ! i)"
  shows "count_list (concat (put_cell g i j v)) x + (if g ! i ! j = x then 1 else 0)
          = count_list (concat g) x + (if v = x then 1 else 0)"
  unfolding put_cell_def
  using count_concat_update [OF assms(1), of "(g ! i)[j := v]" x]
        count_list_update [OF assms(2), of v x]
  by linarith








lemma grid_eqI:
  assumes "length g = length h"
    and "\<And>r. r < length g \<Longrightarrow> length (g ! r) = length (h ! r)"
    and "\<And>r c. r < length g \<Longrightarrow> c < length (g ! r) \<Longrightarrow> g ! r ! c = h ! r ! c"
  shows "g = (h :: 'a list list)"
  using assms by (metis nth_equalityI)




































section \<open>Peg solitaire: the goal test\<close>

text \<open>
  Claim C4. For every peg-solitaire configuration accepted by the constructor,
  \<open>is_solved()\<close> returns (it does not raise) and its result is true exactly when one cell
  of the whole grid holds a peg; cells holding empty or unused play no part.
\<close>

theorem is_solved_iff_one_peg:
  assumes "GridPegSolitairePuzzle_init mk ms = Some p"
  shows "GridPegSolitairePuzzle_is_solved p = Some (peg_count (marker p) = 1)"
proof -
  note p = peg_init_marker(1) [OF assms] and ne = peg_initD(2) [OF assms]
    and rect = peg_initD(3) [OF assms]
  show ?thesis
    unfolding GridPegSolitairePuzzle_is_solved_def p
    by (simp add: first_row_hd [OF ne] count_outer [OF rect] peg_count_def)
qed

theorem is_solved_iff_one_peg_witness:
  "GridPegSolitairePuzzle_is_solved
     \<lparr>marker = [[''.'', ''#'', ''.''], [''.'', ''*'', ''#'']], marker_set = {''*'', ''.'', ''#''}\<rparr>
   = Some True
   \<and> GridPegSolitairePuzzle_is_solved
     \<lparr>marker = [[''*'', ''*'', ''.'']], marker_set = {''*'', ''.'', ''#''}\<rparr> = Some False"
proof -
  have a: "GridPegSolitairePuzzle_init [[''.'', ''#'', ''.''], [''.'', ''*'', ''#'']] {''*'', ''.'', ''#''}
           = Some \<lparr>marker = [[''.'', ''#'', ''.''], [''.'', ''*'', ''#'']],
                   marker_set = {''*'', ''.'', ''#''}\<rparr>"
    by code_simp
  have b: "GridPegSolitairePuzzle_init [[''*'', ''*'', ''.'']] {''*'', ''.'', ''#''}
           = Some \<lparr>marker = [[''*'', ''*'', ''.'']], marker_set = {''*'', ''.'', ''#''}\<rparr>"
    by code_simp
  have c: "(peg_count [[''.'', ''#'', ''.''], [''.'', ''*'', ''#'']] = 1) = True"
    by code_simp
  have d: "(peg_count [[''*'', ''*'', ''.'']] = 1) = False"
    by code_simp
  show ?thesis
    using is_solved_iff_one_peg [OF a] is_solved_iff_one_peg [OF b]
    unfolding peg_puzzle.simps c d by (rule conjI)
qed

section \<open>Peg solitaire: move generation\<close>



section \<open>Peg solitaire: invariants of a move\<close>




section \<open>Sliding tiles: the constructor and the search for the blank\<close>

lemma if_chain3_Some:
  "((if \<not> A then None else if \<not> B then None else if \<not> C then None else Some x) = Some p)
     \<longleftrightarrow> (A \<and> B \<and> C \<and> p = x)"
  by auto

lemma rect_nth0:
  "g \<noteq> [] \<Longrightarrow> (\<forall>r \<in> set g. length r = length (g ! 0)) \<longleftrightarrow> (\<forall>r \<in> set g. length r = length (hd g))"
  by (cases g) simp_all

lemma rect_nth0': "(\<forall>r \<in> set g. length r = length (g ! 0)) \<longleftrightarrow> (\<forall>r \<in> set g. length r = length (hd g))"
  by (cases g) simp_all

lemma mn_init_Some:
  "MNPuzzle_init fg tg = Some p \<longleftrightarrow>
     fg \<noteq> [] \<and> (\<forall>r \<in> set fg. length r = length (hd fg)) \<and> (\<forall>r \<in> set tg. length r = length (hd tg))
     \<and> p = \<lparr>mn_n = length fg, mn_m = length (hd fg), from_grid = fg, to_grid = tg\<rparr>"
proof (cases fg)
  case Nil
  then show ?thesis by (simp add: MNPuzzle_init_def)
next
  case (Cons a list)
  then have 0: "fg ! 0 = hd fg" "0 < length fg" "fg \<noteq> []" by simp_all
  show ?thesis
    unfolding MNPuzzle_init_def if_chain3_Some rect_nth0' 0 using 0 by blast
qed

lemma mn_initD:
  assumes "MNPuzzle_init fg tg = Some p"
  shows "fg \<noteq> []" and "\<forall>r \<in> set fg. length r = length (hd fg)"
    and "\<forall>r \<in> set tg. length r = length (hd tg)"
    and "p = \<lparr>mn_n = length fg, mn_m = length (hd fg), from_grid = fg, to_grid = tg\<rparr>"
  using assms unfolding mn_init_Some by blast+

lemma mn_init_fields:
  assumes "MNPuzzle_init fg tg = Some p"
  shows "mn_n p = length fg" "mn_m p = length (hd fg)" "from_grid p = fg" "to_grid p = tg"
  using mn_initD(4) [OF assms] by simp_all

lemma scan_row_result:
  assumes "i < length g" "\<forall>j \<in> set js. j < length (g ! i)"
  shows "(scan_row g i js = Some None \<and> (\<forall>j \<in> set js. g ! i ! j \<noteq> BLANK))
       \<or> (\<exists>b. scan_row g i js = Some (Some (i, b)) \<and> b \<in> set js \<and> g ! i ! b = BLANK)"
  using assms
proof (induction js)
  case Nil
  then show ?case by simp
next
  case (Cons j js)
  then have c: "cell g i j = Some (g ! i ! j)" by (simp add: cell_def)
  show ?case
  proof (cases "g ! i ! j = BLANK")
    case True
    then show ?thesis by (simp add: c)
  next
    case False
    from Cons have "(scan_row g i js = Some None \<and> (\<forall>j \<in> set js. g ! i ! j \<noteq> BLANK))
       \<or> (\<exists>b. scan_row g i js = Some (Some (i, b)) \<and> b \<in> set js \<and> g ! i ! b = BLANK)"
      by simp
    then show ?thesis using False by (auto simp add: c)
  qed
qed

lemma scan_rows_result:
  assumes "\<forall>i \<in> set is. i < length g \<and> (\<forall>j \<in> set js. j < length (g ! i))"
  shows "(scan_rows g is js = Some None \<and> (\<forall>i \<in> set is. \<forall>j \<in> set js. g ! i ! j \<noteq> BLANK))
       \<or> (\<exists>a b. scan_rows g is js = Some (Some (a, b)) \<and> a \<in> set is \<and> b \<in> set js
             \<and> g ! a ! b = BLANK)"
  using assms
proof (induction "is")
  case Nil
  then show ?case by simp
next
  case (Cons i "is")
  then have "i < length g" "\<forall>j \<in> set js. j < length (g ! i)" by simp_all
  note row = scan_row_result [OF this]
  from Cons have rest: "(scan_rows g is js = Some None
          \<and> (\<forall>i \<in> set is. \<forall>j \<in> set js. g ! i ! j \<noteq> BLANK))
       \<or> (\<exists>a b. scan_rows g is js = Some (Some (a, b)) \<and> a \<in> set is \<and> b \<in> set js
             \<and> g ! a ! b = BLANK)"
    by simp
  from row show ?case
  proof
    assume "scan_row g i js = Some None \<and> (\<forall>j \<in> set js. g ! i ! j \<noteq> BLANK)"
    then show ?thesis using rest by auto
  next
    assume "\<exists>b. scan_row g i js = Some (Some (i, b)) \<and> b \<in> set js \<and> g ! i ! b = BLANK"
    then show ?thesis by auto
  qed
qed

lemma count_le1_unique:
  "count_list xs v \<le> 1 \<Longrightarrow> a < length xs \<Longrightarrow> b < length xs \<Longrightarrow> xs ! a = v \<Longrightarrow> xs ! b = v
     \<Longrightarrow> a = b"
proof (induction xs arbitrary: a b)
  case Nil
  then show ?case by simp
next
  case (Cons x xs)
  show ?case
  proof (cases a)
    case a0: 0
    show ?thesis
    proof (cases b)
      case 0
      then show ?thesis using a0 by simp
    next
      case (Suc b')
      with Cons.prems a0 have "x = v" "xs ! b' = v" "b' < length xs" by simp_all
      then have "count_list xs v \<ge> 1"
        by (metis One_nat_def Suc_leI count_list_0_iff neq0_conv nth_mem)
      with Cons.prems(1) \<open>x = v\<close> show ?thesis by simp
    qed
  next
    case sa: (Suc a')
    show ?thesis
    proof (cases b)
      case 0
      with Cons.prems sa have "x = v" "xs ! a' = v" "a' < length xs" by simp_all
      then have "count_list xs v \<ge> 1"
        by (metis One_nat_def Suc_leI count_list_0_iff neq0_conv nth_mem)
      with Cons.prems(1) \<open>x = v\<close> show ?thesis by simp
    next
      case (Suc b')
      have "count_list xs v \<le> 1" using Cons.prems(1) by (simp split: if_splits)
      from Cons.IH [OF this, of a' b'] Cons.prems sa Suc show ?thesis by simp
    qed
  qed
qed

lemma count_concat_ge:
  "r < length g \<Longrightarrow> count_list (g ! r) v \<le> count_list (concat g) v"
proof (induction g arbitrary: r)
  case Nil
  then show ?case by simp
next
  case (Cons a g)
  then show ?case by (cases r) (auto simp add: count_list_app intro: trans_le_add2)
qed

lemma count_concat_le1_row:
  "count_list (concat g) v \<le> 1 \<Longrightarrow> r < length g \<Longrightarrow> a < length g \<Longrightarrow> v \<in> set (g ! r)
     \<Longrightarrow> v \<in> set (g ! a) \<Longrightarrow> r = a"
proof (induction g arbitrary: r a)
  case Nil
  then show ?case by simp
next
  case (Cons x g)
  have pos: "count_list ys v \<ge> 1" if "v \<in> set ys" for ys
    using that by (metis One_nat_def Suc_leI count_list_0_iff neq0_conv)
  show ?case
  proof (cases r)
    case r0: 0
    show ?thesis
    proof (cases a)
      case 0
      then show ?thesis using r0 by simp
    next
      case (Suc a')
      with Cons.prems r0 have "v \<in> set x" "v \<in> set (g ! a')" "a' < length g" by simp_all
      then have "count_list x v \<ge> 1" "count_list (concat g) v \<ge> 1"
        using pos count_concat_ge [of a' g v] by (auto intro: order_trans)
      with Cons.prems(1) show ?thesis by (simp add: count_list_app)
    qed
  next
    case sr: (Suc r')
    show ?thesis
    proof (cases a)
      case 0
      with Cons.prems sr have "v \<in> set x" "v \<in> set (g ! r')" "r' < length g" by simp_all
      then have "count_list x v \<ge> 1" "count_list (concat g) v \<ge> 1"
        using pos count_concat_ge [of r' g v] by (auto intro: order_trans)
      with Cons.prems(1) show ?thesis by (simp add: count_list_app)
    next
      case (Suc a')
      have "count_list (concat g) v \<le> 1" using Cons.prems(1) by (simp add: count_list_app)
      from Cons.IH [OF this, of r' a'] Cons.prems sr Suc show ?thesis by simp
    qed
  qed
qed

lemma unique_blank:
  assumes "count_list (concat g) v \<le> 1"
    and "r < length g" "c < length (g ! r)" "g ! r ! c = v"
    and "a < length g" "b < length (g ! a)" "g ! a ! b = v"
  shows "a = r \<and> b = c"
proof -
  have vr: "v \<in> set (g ! r)" using nth_mem [OF assms(3)] assms(4) by simp
  have va: "v \<in> set (g ! a)" using nth_mem [OF assms(6)] assms(7) by simp
  have ra: "r = a" by (rule count_concat_le1_row [OF assms(1) assms(2) assms(5) vr va])
  have "count_list (g ! r) v \<le> 1"
    using count_concat_ge [OF assms(2), of v] assms(1) by simp
  then have "c = b"
    using assms(3) assms(6) assms(4) assms(7) unfolding ra by (rule count_le1_unique)
  with ra show ?thesis by simp
qed


section \<open>Sliding tiles: moves\<close>

lemma rect_row:
  assumes "\<forall>r \<in> set g. length r = length (hd g)" "r < length g"
  shows "length (g ! r) = length (hd g)"
  using assms nth_mem by blast

lemma blank_exists:
  assumes "1 \<le> count_list (concat g) v"
  shows "\<exists>r c. r < length g \<and> c < length (g ! r) \<and> g ! r ! c = v"
proof -
  from assms have "v \<in> set (concat g)"
    by (metis count_list_0_iff not_one_le_zero)
  then obtain row where row: "row \<in> set g" "v \<in> set row" by auto
  then obtain r where r: "r < length g" "g ! r = row" by (meson in_set_conv_nth)
  from row obtain c where c: "c < length row" "row ! c = v" by (meson in_set_conv_nth)
  from r c show ?thesis by blast
qed

lemma index_of_space_eq:
  assumes init: "MNPuzzle_init fg tg = Some p"
    and b: "r < length fg" "c < length (hd fg)" "fg ! r ! c = BLANK"
    and one: "count_list (concat fg) BLANK \<le> 1"
  shows "MNPuzzle_index_of_space p = Some (Some (r, c))"
proof -
  note rect = mn_initD(2) [OF init]
  have len: "\<And>i. i < length fg \<Longrightarrow> length (fg ! i) = length (hd fg)"
    by (rule rect_row [OF rect])
  have "\<forall>i \<in> set [0..<length fg]. i < length fg \<and> (\<forall>j \<in> set [0..<length (hd fg)]. j < length (fg ! i))"
    using len by simp
  note res = scan_rows_result [OF this]
  have rc: "r \<in> set [0..<length fg]" "c \<in> set [0..<length (hd fg)]" using b by simp_all
  from res show ?thesis
  proof
    assume "scan_rows fg [0..<length fg] [0..<length (hd fg)] = Some None \<and>
      (\<forall>i\<in>set [0..<length fg]. \<forall>j\<in>set [0..<length (hd fg)]. fg ! i ! j \<noteq> BLANK)"
    with rc b(3) show ?thesis by blast
  next
    assume "\<exists>a b. scan_rows fg [0..<length fg] [0..<length (hd fg)] = Some (Some (a, b)) \<and>
      a \<in> set [0..<length fg] \<and> b \<in> set [0..<length (hd fg)] \<and> fg ! a ! b = BLANK"
    then obtain a b' where ab:
      "scan_rows fg [0..<length fg] [0..<length (hd fg)] = Some (Some (a, b'))"
      "a < length fg" "b' < length (hd fg)" "fg ! a ! b' = BLANK"
      by auto
    have "a = r \<and> b' = c"
      using one b(1) _ b(3) ab(2) _ ab(4)
    proof (rule unique_blank)
      show "c < length (fg ! r)" using len [OF b(1)] b(2) by simp
      show "b' < length (fg ! a)" using len [OF ab(2)] ab(3) by simp
    qed
    with ab(1) show ?thesis
      unfolding MNPuzzle_index_of_space_def mn_init_fields [OF init] by simp
  qed
qed

lemma exchanged_length: "length (exchanged g a b) = length g"
  by (simp add: exchanged_def)

lemma exchanged_row_length: "r < length g \<Longrightarrow> length (exchanged g a b ! r) = length (g ! r)"
  by (simp add: exchanged_def)

lemma exchanged_nth:
  "r < length g \<Longrightarrow> c < length (g ! r) \<Longrightarrow>
   exchanged g a b ! r ! c =
     (if (r, c) = a then g ! fst b ! snd b else if (r, c) = b then g ! fst a ! snd a else g ! r ! c)"
  by (simp add: exchanged_def)

lemma two_puts:
  assumes "r < length g" "c < length (g ! r)" "r' < length g" "c' < length (g ! r')"
    and "g ! r ! c = w"
  shows "put_cell (put_cell g r c (g ! r' ! c')) r' c' w = exchanged g (r, c) (r', c')"
proof (rule grid_eqI)
  show "length (put_cell (put_cell g r c (g ! r' ! c')) r' c' w) = length (exchanged g (r, c) (r', c'))"
    by (simp add: put_length exchanged_length)
next
  fix x assume "x < length (put_cell (put_cell g r c (g ! r' ! c')) r' c' w)"
  then have x: "x < length g" by (simp add: put_length)
  then show "length (put_cell (put_cell g r c (g ! r' ! c')) r' c' w ! x)
      = length (exchanged g (r, c) (r', c') ! x)"
    by (simp add: put_length put_row_length exchanged_row_length)
next
  fix x y
  assume "x < length (put_cell (put_cell g r c (g ! r' ! c')) r' c' w)"
    and y: "y < length (put_cell (put_cell g r c (g ! r' ! c')) r' c' w ! x)"
  then have x: "x < length g" by (simp add: put_length)
  with y have y: "y < length (g ! x)" by (simp add: put_length put_row_length)
  have 1: "x < length (put_cell g r c (g ! r' ! c'))" using x by (simp add: put_length)
  have 2: "y < length (put_cell g r c (g ! r' ! c') ! x)" using x y by (simp add: put_row_length)
  show "put_cell (put_cell g r c (g ! r' ! c')) r' c' w ! x ! y = exchanged g (r, c) (r', c') ! x ! y"
    unfolding put_nth [OF 1 2] put_nth [OF x y] exchanged_nth [OF x y]
    using assms(5) by auto
qed

lemma hd_nth0: "g \<noteq> [] \<Longrightarrow> hd g = g ! 0"
  by (cases g) simp_all

lemma exchanged_init:
  assumes init: "MNPuzzle_init fg tg = Some p"
  shows "MNPuzzle_init (exchanged fg a b) tg =
    Some \<lparr>mn_n = mn_n p, mn_m = mn_m p, from_grid = exchanged fg a b, to_grid = tg\<rparr>"
proof -
  note d = mn_initD [OF init]
  have ne: "exchanged fg a b \<noteq> []" using d(1) exchanged_length [of fg a b] by auto
  have 0: "0 < length fg" using d(1) by simp
  have hd: "length (hd (exchanged fg a b)) = length (hd fg)"
    unfolding hd_nth0 [OF ne] hd_nth0 [OF d(1)] by (rule exchanged_row_length [OF 0])
  have rect: "\<forall>r \<in> set (exchanged fg a b). length r = length (hd (exchanged fg a b))"
  proof
    fix row assume "row \<in> set (exchanged fg a b)"
    then obtain r where r: "r < length (exchanged fg a b)" "exchanged fg a b ! r = row"
      by (meson in_set_conv_nth)
    then have r': "r < length fg" by (simp add: exchanged_length)
    have "length row = length (fg ! r)" using exchanged_row_length [OF r', of a b] r(2) by simp
    also have "\<dots> = length (hd fg)" by (rule rect_row [OF d(2) r'])
    finally show "length row = length (hd (exchanged fg a b))" using hd by simp
  qed
  show ?thesis
    unfolding mn_init_Some mn_init_fields [OF init]
    using ne rect d(3) hd by (simp add: exchanged_length)
qed

lemma swap_eq:
  assumes init: "MNPuzzle_init fg tg = Some p"
    and b: "r < length fg" "c < length (hd fg)" "fg ! r ! c = BLANK"
    and b': "r' < length fg" "c' < length (hd fg)"
  shows "MNPuzzle_swap p r c r' c' configurations =
    Some (configurations @
      [\<lparr>mn_n = mn_n p, mn_m = mn_m p, from_grid = exchanged fg (r, c) (r', c'), to_grid = tg\<rparr>])"
proof -
  note rect = mn_initD(2) [OF init]
  have c: "c < length (fg ! r)" using rect_row [OF rect b(1)] b(2) by simp
  have c': "c' < length (fg ! r')" using rect_row [OF rect b'(1)] b'(2) by simp
  have 1: "cell fg r' c' = Some (fg ! r' ! c')" by (rule cell_Some [OF b'(1) c'])
  have 2: "set_cell fg r c (fg ! r' ! c') = Some (put_cell fg r c (fg ! r' ! c'))"
    by (rule set_cell_Some [OF b(1) c])
  have 3: "set_cell (put_cell fg r c (fg ! r' ! c')) r' c' BLANK
     = Some (put_cell (put_cell fg r c (fg ! r' ! c')) r' c' BLANK)"
    by (rule set_cell_Some) (use b' c' in \<open>simp_all add: put_length put_row_length\<close>)
  show ?thesis
    unfolding MNPuzzle_swap_def MNPuzzle_convert_tuple_def MNPuzzle_convert_list_def
      mn_init_fields(3,4) [OF init]
    by (simp add: 1 2 3 two_puts [OF b(1) c b'(1) c' b(3)] exchanged_init [OF init])
qed

lemma mn_row_configs_eq:
  assumes init: "MNPuzzle_init fg tg = Some p"
    and b: "r < length fg" "c < length (hd fg)" "fg ! r ! c = BLANK"
    and one: "count_list (concat fg) BLANK \<le> 1"
  shows "MNPuzzle_row_configs p = Some (
     (if c + 1 < length (hd fg)
      then [\<lparr>mn_n = mn_n p, mn_m = mn_m p, from_grid = exchanged fg (r, c) (r, c + 1), to_grid = tg\<rparr>]
      else []) @
     (if 1 \<le> c
      then [\<lparr>mn_n = mn_n p, mn_m = mn_m p, from_grid = exchanged fg (r, c) (r, c - 1), to_grid = tg\<rparr>]
      else []))"
proof -
  note idx = index_of_space_eq [OF init b one]
  note sw = swap_eq [OF init b b(1)]
  have m: "mn_m p = length (hd fg)" by (rule mn_init_fields(2) [OF init])
  have t: "(0 \<le> int c - 1) = (1 \<le> c)" by auto
  have c1: "c - 1 < length (hd fg)" using b(2) by simp
  show ?thesis
  proof (cases "c + 1 < length (hd fg)")
    case True
    show ?thesis
      unfolding MNPuzzle_row_configs_def idx m t
      by (cases "1 \<le> c") (simp_all add: True sw [OF True] sw [OF c1] m del: One_nat_def)
  next
    case False
    show ?thesis
      unfolding MNPuzzle_row_configs_def idx m t
      by (cases "1 \<le> c") (simp_all add: False sw [OF c1] m del: One_nat_def)
  qed
qed

lemma mn_col_configs_eq:
  assumes init: "MNPuzzle_init fg tg = Some p"
    and b: "r < length fg" "c < length (hd fg)" "fg ! r ! c = BLANK"
    and one: "count_list (concat fg) BLANK \<le> 1"
  shows "MNPuzzle_col_configs p = Some (
     (if r + 1 < length fg
      then [\<lparr>mn_n = mn_n p, mn_m = mn_m p, from_grid = exchanged fg (r, c) (r + 1, c), to_grid = tg\<rparr>]
      else []) @
     (if 1 \<le> r
      then [\<lparr>mn_n = mn_n p, mn_m = mn_m p, from_grid = exchanged fg (r, c) (r - 1, c), to_grid = tg\<rparr>]
      else []))"
proof -
  note idx = index_of_space_eq [OF init b one]
  have sw: "\<And>r' cfgs. r' < length fg \<Longrightarrow> MNPuzzle_swap p r c r' c cfgs =
    Some (cfgs @ [\<lparr>mn_n = mn_n p, mn_m = mn_m p, from_grid = exchanged fg (r, c) (r', c), to_grid = tg\<rparr>])"
    by (rule swap_eq [OF init b _ b(2)])
  have n: "mn_n p = length fg" by (rule mn_init_fields(1) [OF init])
  have t: "(0 \<le> int r - 1) = (1 \<le> r)" by auto
  have r1: "r - 1 < length fg" using b(1) by simp
  show ?thesis
  proof (cases "r + 1 < length fg")
    case True
    show ?thesis
      unfolding MNPuzzle_col_configs_def idx n t
      by (cases "1 \<le> r") (simp_all add: True sw [OF True] sw [OF r1] n del: One_nat_def)
  next
    case False
    show ?thesis
      unfolding MNPuzzle_col_configs_def idx n t
      by (cases "1 \<le> r") (simp_all add: False sw [OF r1] n del: One_nat_def)
  qed
qed

lemma neighbours_filter:
  assumes "r < n" "c < m"
  shows "map (\<lambda>q. f (nat (fst q)) (nat (snd q))) (filter (in_bounds n m) (neighbours r c)) =
     (if c + 1 < m then [f r (c + 1)] else []) @ (if 1 \<le> c then [f r (c - 1)] else []) @
     (if r + 1 < n then [f (r + 1) c] else []) @ (if 1 \<le> r then [f (r - 1) c] else [])"
proof -
  have 1: "in_bounds n m (int r, int c + 1) = (c + 1 < m)" using assms by (auto simp: in_bounds_def)
  have 2: "in_bounds n m (int r, int c - 1) = (1 \<le> c)" using assms by (auto simp: in_bounds_def)
  have 3: "in_bounds n m (int r + 1, int c) = (r + 1 < n)" using assms by (auto simp: in_bounds_def)
  have 4: "in_bounds n m (int r - 1, int c) = (1 \<le> r)" using assms by (auto simp: in_bounds_def)
  have n: "nat (int c + 1) = c + 1" "nat (int r + 1) = r + 1" "nat (int c - 1) = c - 1"
    "nat (int r - 1) = r - 1" by simp_all
  show ?thesis
    unfolding neighbours_def filter.simps 1 2 3 4
    by (simp add: n del: One_nat_def)
qed

lemma extensions_eq_mn:
  assumes init: "MNPuzzle_init fg tg = Some p"
    and b: "r < length fg" "c < length (hd fg)" "fg ! r ! c = BLANK"
    and one: "count_list (concat fg) BLANK \<le> 1"
  shows "MNPuzzle_extensions p = Some (map
     (\<lambda>q. \<lparr>mn_n = mn_n p, mn_m = mn_m p,
            from_grid = exchanged fg (r, c) (nat (fst q), nat (snd q)), to_grid = tg\<rparr>)
     (filter (in_bounds (mn_n p) (mn_m p)) (neighbours r c)))"
  unfolding MNPuzzle_extensions_def mn_row_configs_eq [OF init b one] mn_col_configs_eq [OF init b one]
    mn_init_fields(1,2) [OF init]
    neighbours_filter [OF b(1) b(2), of "\<lambda>x y. \<lparr>mn_n = length fg, mn_m = length (hd fg),
            from_grid = exchanged fg (r, c) (x, y), to_grid = tg\<rparr>"]
  by simp

lemma neighbours_count:
  assumes "r < n" "c < m" "2 \<le> n" "2 \<le> m"
  shows "length (filter (in_bounds n m) (neighbours r c)) =
     (if corner n m r c then 2 else if on_edge n m r c then 3 else 4)"
proof -
  have "length (filter (in_bounds n m) (neighbours r c))
    = length (map (\<lambda>q. (nat (fst q), nat (snd q))) (filter (in_bounds n m) (neighbours r c)))"
    by simp
  also have "\<dots> = (if c + 1 < m then 1 else 0) + (if 1 \<le> c then 1 else 0) +
     (if r + 1 < n then 1 else 0) + (if 1 \<le> r then 1 else 0)"
    unfolding neighbours_filter [OF assms(1,2), of "\<lambda>x y. (x, y)"] by simp
  also have "\<dots> = (if corner n m r c then 2 else if on_edge n m r c then 3 else 4)"
    using assms unfolding corner_def on_edge_def by (auto simp del: One_nat_def)
  finally show ?thesis .
qed

lemma count_exchanged:
  assumes "r < length g" "c < length (g ! r)" "r' < length g" "c' < length (g ! r')"
  shows "count_list (concat (exchanged g (r, c) (r', c'))) x = count_list (concat g) x"
proof -
  let ?g1 = "put_cell g r c (g ! r' ! c')"
  have 1: "r' < length ?g1" "c' < length (?g1 ! r')"
    using assms by (simp_all add: put_length put_row_length)
  have v: "?g1 ! r' ! c' = g ! r' ! c'"
    unfolding put_nth [OF assms(3,4)] by auto
  from count_put [OF assms(1,2), of "g ! r' ! c'" x]
       count_put [OF 1, of "g ! r ! c" x]
  have "count_list (concat (put_cell ?g1 r' c' (g ! r ! c))) x = count_list (concat g) x"
    unfolding v by (simp split: if_splits)
  then show ?thesis
    unfolding two_puts [OF assms refl] .
qed

lemma mset_exchanged:
  assumes "r < length g" "c < length (g ! r)" "r' < length g" "c' < length (g ! r')"
  shows "mset (concat (exchanged g (r, c) (r', c'))) = mset (concat g)"
  by (rule multiset_eqI) (simp add: count_mset count_exchanged [OF assms])

lemma in_bounds_nat:
  assumes "in_bounds n m q"
  shows "nat (fst q) < n" "nat (snd q) < m"
  using assms unfolding in_bounds_def by auto

lemma successor_props_mn:
  assumes init: "MNPuzzle_init fg tg = Some p"
    and one: "blank_count fg = 1"
    and ext: "MNPuzzle_extensions p = Some es" and s: "s \<in> set es"
  shows "blank_count (from_grid s) = 1" "mn_n s = mn_n p" "mn_m s = mn_m p"
    "mset (concat (from_grid s)) = mset (concat fg)" "to_grid s = to_grid p"
    "MNPuzzle_init (from_grid s) (to_grid s) = Some s"
proof -
  have ge: "1 \<le> count_list (concat fg) BLANK" and le: "count_list (concat fg) BLANK \<le> 1"
    using one unfolding blank_count_def by simp_all
  from blank_exists [OF ge] obtain r c where
    rc: "r < length fg" "c < length (fg ! r)" "fg ! r ! c = BLANK" by blast
  note rect = mn_initD(2) [OF init]
  have c: "c < length (hd fg)" using rect_row [OF rect rc(1)] rc(2) by simp
  note e = extensions_eq_mn [OF init rc(1) c rc(3) le]
  from ext s e obtain q where q: "in_bounds (mn_n p) (mn_m p) q"
    and s: "s = \<lparr>mn_n = mn_n p, mn_m = mn_m p,
            from_grid = exchanged fg (r, c) (nat (fst q), nat (snd q)), to_grid = tg\<rparr>"
    by auto
  have q1: "nat (fst q) < length fg" and q2': "nat (snd q) < length (hd fg)"
    using in_bounds_nat [OF q] unfolding mn_init_fields [OF init] by simp_all
  have q2: "nat (snd q) < length (fg ! nat (fst q))" using rect_row [OF rect q1] q2' by simp
  note cnt = count_exchanged [OF rc(1,2) q1 q2]
  show "blank_count (from_grid s) = 1"
    unfolding blank_count_def s using cnt [of BLANK] one by (simp add: blank_count_def)
  show "mn_n s = mn_n p" "mn_m s = mn_m p" unfolding s by simp_all
  show "mset (concat (from_grid s)) = mset (concat fg)"
    unfolding s using mset_exchanged [OF rc(1,2) q1 q2] by simp
  show "to_grid s = to_grid p" unfolding s mn_init_fields [OF init] by simp
  show "MNPuzzle_init (from_grid s) (to_grid s) = Some s"
    unfolding s using exchanged_init [OF init] by simp
qed

lemma extensions_Some_mn:
  assumes init: "MNPuzzle_init fg tg = Some p" and one: "blank_count fg = 1"
  shows "\<exists>es. MNPuzzle_extensions p = Some es"
proof -
  have ge: "1 \<le> count_list (concat fg) BLANK" and le: "count_list (concat fg) BLANK \<le> 1"
    using one unfolding blank_count_def by simp_all
  from blank_exists [OF ge] obtain r c where
    rc: "r < length fg" "c < length (fg ! r)" "fg ! r ! c = BLANK" by blast
  have c: "c < length (hd fg)" using rect_row [OF mn_initD(2) [OF init] rc(1)] rc(2) by simp
  from extensions_eq_mn [OF init rc(1) c rc(3) le] show ?thesis by blast
qed


section \<open>Sliding tiles: claims\<close>

subsection \<open>Claim C6: what the constructor checks\<close>

text \<open>
  Claim C6 says that the construction of a sliding-tile puzzle performs no validation and
  always succeeds, also on an empty grid or on non-rectangular rows. The constructor has
  three assertions. Construction succeeds exactly when the current grid has at least one row,
  every row of the current grid is as long as its first row, and every row of the goal grid
  is as long as the goal's first row. That the two grids have the same shape, and that a blank
  is present, is not checked.
\<close>

theorem MNPuzzle_init_accepts_iff:
  "(\<exists>p. MNPuzzle_init fg tg = Some p) \<longleftrightarrow>
     fg \<noteq> [] \<and> (\<forall>r \<in> set fg. length r = length (hd fg)) \<and> (\<forall>r \<in> set tg. length r = length (hd tg))"
  unfolding mn_init_Some by blast

text \<open>An empty current grid and a ragged current grid are both rejected.\<close>

theorem MNPuzzle_init_rejects_counterexample:
  "MNPuzzle_init [] [] = None
   \<and> MNPuzzle_init [[''*'', ''1''], [''2'']] [[''1'', ''*''], [''2'']] = None"
  by code_simp

text \<open>Grids of different shapes, one without a blank, and an empty goal are accepted.\<close>

theorem MNPuzzle_init_accepts_iff_witness:
  "(\<exists>p. MNPuzzle_init [[''*'', ''1'']] [[''1''], [''2'']] = Some p)
   \<and> (\<exists>p. MNPuzzle_init [[''3'', ''1'']] [] = Some p)"
proof -
  have a: "[[''*'', ''1'']] \<noteq> [] \<and> (\<forall>r \<in> set [[''*'', ''1'']]. length r = length (hd [[''*'', ''1'']]))
        \<and> (\<forall>r \<in> set [[''1''], [''2'']]. length r = length (hd [[''1''], [''2'']]))"
    by code_simp
  have b: "[[''3'', ''1'']] \<noteq> [] \<and> (\<forall>r \<in> set [[''3'', ''1'']]. length r = length (hd [[''3'', ''1'']]))
        \<and> (\<forall>r \<in> set ([] :: grid). length r = length (hd ([] :: grid)))"
    by simp
  show ?thesis
    using a b MNPuzzle_init_accepts_iff [of "[[''*'', ''1'']]" "[[''1''], [''2'']]"]
      MNPuzzle_init_accepts_iff [of "[[''3'', ''1'']]" "[]"]
    by blast
qed

subsection \<open>Claim C3: one successor per neighbour of the blank\<close>

text \<open>
  Claim C3. For every sliding-tile configuration accepted by the constructor whose current
  grid holds exactly one blank, the blank has a unique position \<open>(r, c)\<close>, and
  \<open>extensions()\<close> returns one configuration for each in-bounds orthogonal neighbour of
  \<open>(r, c)\<close>, in the order right, left, down, up. Each returned configuration is the
  receiver's grid with the blank and the neighbour's symbol exchanged (\<open>exchanged\<close> copies
  every other cell), with the receiver's goal grid and dimensions.
\<close>

theorem extensions_one_per_neighbour:
  assumes "MNPuzzle_init fg tg = Some p" and "blank_count fg = 1"
  shows "\<exists>r c. r < mn_n p \<and> c < mn_m p \<and> fg ! r ! c = BLANK
     \<and> (\<forall>x y. x < mn_n p \<and> y < mn_m p \<longrightarrow> (fg ! x ! y = BLANK) = ((x, y) = (r, c)))
     \<and> MNPuzzle_extensions p = Some (map
          (\<lambda>q. \<lparr>mn_n = mn_n p, mn_m = mn_m p,
                 from_grid = exchanged fg (r, c) (nat (fst q), nat (snd q)), to_grid = tg\<rparr>)
          (filter (in_bounds (mn_n p) (mn_m p)) (neighbours r c)))"
proof -
  note init = assms(1)
  have ge: "1 \<le> count_list (concat fg) BLANK" and le: "count_list (concat fg) BLANK \<le> 1"
    using assms(2) unfolding blank_count_def by simp_all
  from blank_exists [OF ge] obtain r c where
    rc: "r < length fg" "c < length (fg ! r)" "fg ! r ! c = BLANK" by blast
  note rect = mn_initD(2) [OF init]
  have len: "\<And>i. i < length fg \<Longrightarrow> length (fg ! i) = length (hd fg)"
    by (rule rect_row [OF rect])
  have c: "c < length (hd fg)" using len [OF rc(1)] rc(2) by simp
  have u: "(fg ! x ! y = BLANK) = ((x, y) = (r, c))" if "x < length fg" "y < length (hd fg)" for x y
  proof
    assume b: "fg ! x ! y = BLANK"
    have "y < length (fg ! x)" using len [OF that(1)] that(2) by simp
    from unique_blank [OF le rc(1) rc(2) rc(3) that(1) this b] show "(x, y) = (r, c)" by simp
  next
    assume "(x, y) = (r, c)"
    then show "fg ! x ! y = BLANK" using rc(3) by simp
  qed
  note e = extensions_eq_mn [OF init rc(1) c rc(3) le]
  show ?thesis
    apply (rule exI [of _ r], rule exI [of _ c])
    unfolding mn_init_fields(1,2) [OF init]
    using rc(1) c rc(3) u e [unfolded mn_init_fields(1,2) [OF init]] by blast
qed

text \<open>A blank in the middle of a 3 by 3 grid: the four successors in the order right, left,
  down, up.\<close>

theorem extensions_one_per_neighbour_witness:
  "MNPuzzle_extensions
     \<lparr>mn_n = 3, mn_m = 3,
      from_grid = [[''1'', ''2'', ''3''], [''4'', ''*'', ''5''], [''6'', ''7'', ''8'']],
      to_grid = [[''1'', ''2'', ''3''], [''4'', ''5'', ''6''], [''7'', ''8'', ''*'']]\<rparr>
   = Some [
     \<lparr>mn_n = 3, mn_m = 3,
      from_grid = [[''1'', ''2'', ''3''], [''4'', ''5'', ''*''], [''6'', ''7'', ''8'']],
      to_grid = [[''1'', ''2'', ''3''], [''4'', ''5'', ''6''], [''7'', ''8'', ''*'']]\<rparr>,
     \<lparr>mn_n = 3, mn_m = 3,
      from_grid = [[''1'', ''2'', ''3''], [''*'', ''4'', ''5''], [''6'', ''7'', ''8'']],
      to_grid = [[''1'', ''2'', ''3''], [''4'', ''5'', ''6''], [''7'', ''8'', ''*'']]\<rparr>,
     \<lparr>mn_n = 3, mn_m = 3,
      from_grid = [[''1'', ''2'', ''3''], [''4'', ''7'', ''5''], [''6'', ''*'', ''8'']],
      to_grid = [[''1'', ''2'', ''3''], [''4'', ''5'', ''6''], [''7'', ''8'', ''*'']]\<rparr>,
     \<lparr>mn_n = 3, mn_m = 3,
      from_grid = [[''1'', ''*'', ''3''], [''4'', ''2'', ''5''], [''6'', ''7'', ''8'']],
      to_grid = [[''1'', ''2'', ''3''], [''4'', ''5'', ''6''], [''7'', ''8'', ''*'']]\<rparr>]"
proof -
  let ?G = "[[''1'', ''2'', ''3''], [''4'', ''*'', ''5''], [''6'', ''7'', ''8'']]"
  let ?T = "[[''1'', ''2'', ''3''], [''4'', ''5'', ''6''], [''7'', ''8'', ''*'']]"
  let ?P = "\<lparr>mn_n = 3, mn_m = 3, from_grid = ?G, to_grid = ?T\<rparr>"
  have a: "MNPuzzle_init ?G ?T = Some ?P" by code_simp
  have b: "blank_count ?G = 1" by code_simp
  have g: "?G ! 1 ! 1 = BLANK" by code_simp
  from extensions_one_per_neighbour [OF a b] obtain r c where
    u: "\<forall>x y. x < mn_n ?P \<and> y < mn_m ?P \<longrightarrow> (?G ! x ! y = BLANK) = ((x, y) = (r, c))"
    and e: "MNPuzzle_extensions ?P = Some (map
          (\<lambda>q. \<lparr>mn_n = mn_n ?P, mn_m = mn_m ?P,
                 from_grid = exchanged ?G (r, c) (nat (fst q), nat (snd q)), to_grid = ?T\<rparr>)
          (filter (in_bounds (mn_n ?P) (mn_m ?P)) (neighbours r c)))"
    by blast
  have "(1::nat) < mn_n ?P \<and> (1::nat) < mn_m ?P" by simp
  with u g have "(1::nat, 1::nat) = (r, c)" by blast
  then have rc: "r = 1" "c = 1" by simp_all
  have ev: "map
          (\<lambda>q. \<lparr>mn_n = mn_n ?P, mn_m = mn_m ?P,
                 from_grid = exchanged ?G (1, 1) (nat (fst q), nat (snd q)), to_grid = ?T\<rparr>)
          (filter (in_bounds (mn_n ?P) (mn_m ?P)) (neighbours 1 1))
     = [\<lparr>mn_n = 3, mn_m = 3,
      from_grid = [[''1'', ''2'', ''3''], [''4'', ''5'', ''*''], [''6'', ''7'', ''8'']],
      to_grid = ?T\<rparr>,
     \<lparr>mn_n = 3, mn_m = 3,
      from_grid = [[''1'', ''2'', ''3''], [''*'', ''4'', ''5''], [''6'', ''7'', ''8'']],
      to_grid = ?T\<rparr>,
     \<lparr>mn_n = 3, mn_m = 3,
      from_grid = [[''1'', ''2'', ''3''], [''4'', ''7'', ''5''], [''6'', ''*'', ''8'']],
      to_grid = ?T\<rparr>,
     \<lparr>mn_n = 3, mn_m = 3,
      from_grid = [[''1'', ''*'', ''3''], [''4'', ''2'', ''5''], [''6'', ''7'', ''8'']],
      to_grid = ?T\<rparr>]"
    by code_simp
  from e show ?thesis unfolding rc ev .
qed

subsection \<open>Claim C5: the number of successors\<close>

text \<open>
  Claim C5 says that the length of \<open>extensions()\<close> is 2 when the blank is at a corner,
  3 when it is on an edge but not at a corner, and 4 when it is interior. This holds when
  the grid has at least two rows and at least two columns. In general the length is the
  number of in-bounds orthogonal neighbours of the blank, which is smaller on a grid with a
  single row or a single column.
\<close>

theorem extensions_length_by_position:
  assumes "MNPuzzle_init fg tg = Some p" and "blank_count fg = 1"
    and "r < mn_n p" "c < mn_m p" "fg ! r ! c = BLANK"
  shows "\<exists>es. MNPuzzle_extensions p = Some es
     \<and> length es = length (filter (in_bounds (mn_n p) (mn_m p)) (neighbours r c))
     \<and> (2 \<le> mn_n p \<and> 2 \<le> mn_m p \<longrightarrow>
          length es = (if corner (mn_n p) (mn_m p) r c then 2
                       else if on_edge (mn_n p) (mn_m p) r c then 3 else 4))"
proof -
  note init = assms(1)
  have le: "count_list (concat fg) BLANK \<le> 1"
    using assms(2) unfolding blank_count_def by simp
  have r: "r < length fg" and c: "c < length (hd fg)"
    using assms(3,4) unfolding mn_init_fields(1,2) [OF init] by simp_all
  note e = extensions_eq_mn [OF init r c assms(5) le]
  have "2 \<le> mn_n p \<and> 2 \<le> mn_m p \<longrightarrow>
     length (filter (in_bounds (mn_n p) (mn_m p)) (neighbours r c))
       = (if corner (mn_n p) (mn_m p) r c then 2
          else if on_edge (mn_n p) (mn_m p) r c then 3 else 4)"
    using neighbours_count [OF assms(3,4)] by blast
  then show ?thesis unfolding e by simp
qed

text \<open>On the 1 by 3 grid the blank in the middle is on an edge and not at a corner, and has
  two successors; on the 1 by 1 grid the blank is at a corner and has none.\<close>

theorem extensions_length_counterexample:
  "blank_count [[''1'', ''*'', ''2'']] = 1
   \<and> MNPuzzle_init [[''1'', ''*'', ''2'']] [[''1'', ''2'', ''*'']]
       = Some \<lparr>mn_n = 1, mn_m = 3, from_grid = [[''1'', ''*'', ''2'']],
               to_grid = [[''1'', ''2'', ''*'']]\<rparr>
   \<and> on_edge 1 3 0 1 \<and> corner 1 3 0 1 = False
   \<and> map_option length (MNPuzzle_extensions
        \<lparr>mn_n = 1, mn_m = 3, from_grid = [[''1'', ''*'', ''2'']],
         to_grid = [[''1'', ''2'', ''*'']]\<rparr>) = Some 2
   \<and> blank_count [[''*'']] = 1
   \<and> MNPuzzle_init [[''*'']] [[''*'']]
       = Some \<lparr>mn_n = 1, mn_m = 1, from_grid = [[''*'']], to_grid = [[''*'']]\<rparr>
   \<and> corner 1 1 0 0
   \<and> MNPuzzle_extensions \<lparr>mn_n = 1, mn_m = 1, from_grid = [[''*'']], to_grid = [[''*'']]\<rparr>
       = Some []"
  by code_simp

text \<open>A corner, an edge and an interior position.\<close>

theorem extensions_length_by_position_witness:
  "(\<exists>es. MNPuzzle_extensions
       \<lparr>mn_n = 2, mn_m = 3, from_grid = [[''*'', ''2'', ''3''], [''1'', ''4'', ''5'']],
        to_grid = [[''1'', ''2'', ''3''], [''4'', ''5'', ''*'']]\<rparr> = Some es \<and> length es = 2)
   \<and> (\<exists>es. MNPuzzle_extensions
       \<lparr>mn_n = 2, mn_m = 3, from_grid = [[''2'', ''*'', ''3''], [''1'', ''4'', ''5'']],
        to_grid = [[''1'', ''2'', ''3''], [''4'', ''5'', ''*'']]\<rparr> = Some es \<and> length es = 3)
   \<and> (\<exists>es. MNPuzzle_extensions
       \<lparr>mn_n = 3, mn_m = 3,
        from_grid = [[''1'', ''2'', ''3''], [''4'', ''*'', ''5''], [''6'', ''7'', ''8'']],
        to_grid = [[''1'', ''2'', ''3''], [''4'', ''5'', ''6''], [''7'', ''8'', ''*'']]\<rparr> = Some es
          \<and> length es = 4)"
proof -
  let ?T = "[[''1'', ''2'', ''3''], [''4'', ''5'', ''*'']]"
  let ?G1 = "[[''*'', ''2'', ''3''], [''1'', ''4'', ''5'']]"
  let ?G2 = "[[''2'', ''*'', ''3''], [''1'', ''4'', ''5'']]"
  let ?G3 = "[[''1'', ''2'', ''3''], [''4'', ''*'', ''5''], [''6'', ''7'', ''8'']]"
  let ?T3 = "[[''1'', ''2'', ''3''], [''4'', ''5'', ''6''], [''7'', ''8'', ''*'']]"
  let ?P1 = "\<lparr>mn_n = 2, mn_m = 3, from_grid = ?G1, to_grid = ?T\<rparr>"
  let ?P2 = "\<lparr>mn_n = 2, mn_m = 3, from_grid = ?G2, to_grid = ?T\<rparr>"
  let ?P3 = "\<lparr>mn_n = 3, mn_m = 3, from_grid = ?G3, to_grid = ?T3\<rparr>"
  have a1: "MNPuzzle_init ?G1 ?T = Some ?P1" by code_simp
  have a2: "MNPuzzle_init ?G2 ?T = Some ?P2" by code_simp
  have a3: "MNPuzzle_init ?G3 ?T3 = Some ?P3" by code_simp
  have b1: "blank_count ?G1 = 1" by code_simp
  have b2: "blank_count ?G2 = 1" by code_simp
  have b3: "blank_count ?G3 = 1" by code_simp
  have g1: "?G1 ! 0 ! 0 = BLANK" by code_simp
  have g2: "?G2 ! 0 ! 1 = BLANK" by code_simp
  have g3: "?G3 ! 1 ! 1 = BLANK" by code_simp
  have k1: "corner 2 3 0 0" by code_simp
  have k2: "corner 2 3 0 1 = False" "on_edge 2 3 0 1" by code_simp+
  have k3: "corner 3 3 1 1 = False" "on_edge 3 3 1 1 = False" by code_simp+
  have s: "mn_n ?P1 = 2" "mn_m ?P1 = 3" "mn_n ?P2 = 2" "mn_m ?P2 = 3" "mn_n ?P3 = 3" "mn_m ?P3 = 3"
    by simp_all
  have 1: "\<exists>es. MNPuzzle_extensions ?P1 = Some es \<and> length es = 2"
    using extensions_length_by_position [OF a1 b1 _ _ g1] k1 unfolding s by auto
  have 2: "\<exists>es. MNPuzzle_extensions ?P2 = Some es \<and> length es = 3"
    using extensions_length_by_position [OF a2 b2 _ _ g2] k2 unfolding s by auto
  have 3: "\<exists>es. MNPuzzle_extensions ?P3 = Some es \<and> length es = 4"
    using extensions_length_by_position [OF a3 b3 _ _ g3] k3 unfolding s by auto
  from 1 2 3 show ?thesis by blast
qed

subsection \<open>Claim C10: successors permute the symbols\<close>

text \<open>
  Claim C10. For every sliding-tile configuration accepted by the constructor whose current
  grid holds exactly one blank, \<open>extensions()\<close> returns, and every successor holds exactly
  one blank, has the same dimensions \<open>n\<close> and \<open>m\<close> (as fields and as the shape of its
  grid), and its current grid holds the same multiset of symbols as the receiver's.
\<close>

theorem successors_keep_symbols:
  assumes "MNPuzzle_init fg tg = Some p" and "blank_count fg = 1"
  shows "\<exists>es. MNPuzzle_extensions p = Some es
     \<and> (\<forall>s \<in> set es.
           blank_count (from_grid s) = 1
         \<and> mn_n s = mn_n p \<and> mn_m s = mn_m p
         \<and> length (from_grid s) = mn_n p
         \<and> (\<forall>row \<in> set (from_grid s). length row = mn_m p)
         \<and> mset (concat (from_grid s)) = mset (concat fg))"
proof -
  from extensions_Some_mn [OF assms] obtain es where es: "MNPuzzle_extensions p = Some es"
    by blast
  have "blank_count (from_grid s) = 1
         \<and> mn_n s = mn_n p \<and> mn_m s = mn_m p
         \<and> length (from_grid s) = mn_n p
         \<and> (\<forall>row \<in> set (from_grid s). length row = mn_m p)
         \<and> mset (concat (from_grid s)) = mset (concat fg)" if "s \<in> set es" for s
  proof -
    note sp = successor_props_mn [OF assms es that]
    note f = mn_init_fields [OF sp(6)]
    have "\<forall>row \<in> set (from_grid s). length row = mn_m p"
      using mn_initD(2) [OF sp(6)] f(2) sp(3) by simp
    moreover have "length (from_grid s) = mn_n p" using f(1) sp(2) by simp
    ultimately show ?thesis using sp(1-4) by blast
  qed
  with es show ?thesis by blast
qed

text \<open>The two successors of a 2 by 3 grid with the blank in a corner.\<close>

theorem successors_keep_symbols_witness:
  "MNPuzzle_extensions
     \<lparr>mn_n = 2, mn_m = 3, from_grid = [[''*'', ''2'', ''3''], [''1'', ''4'', ''5'']],
      to_grid = [[''1'', ''2'', ''3''], [''4'', ''5'', ''*'']]\<rparr>
   = Some [
     \<lparr>mn_n = 2, mn_m = 3, from_grid = [[''2'', ''*'', ''3''], [''1'', ''4'', ''5'']],
      to_grid = [[''1'', ''2'', ''3''], [''4'', ''5'', ''*'']]\<rparr>,
     \<lparr>mn_n = 2, mn_m = 3, from_grid = [[''1'', ''2'', ''3''], [''*'', ''4'', ''5'']],
      to_grid = [[''1'', ''2'', ''3''], [''4'', ''5'', ''*'']]\<rparr>]
   \<and> blank_count [[''2'', ''*'', ''3''], [''1'', ''4'', ''5'']] = 1
   \<and> blank_count [[''1'', ''2'', ''3''], [''*'', ''4'', ''5'']] = 1
   \<and> mset (concat [[''2'', ''*'', ''3''], [''1'', ''4'', ''5'']])
       = mset (concat [[''*'', ''2'', ''3''], [''1'', ''4'', ''5'']])
   \<and> mset (concat [[''1'', ''2'', ''3''], [''*'', ''4'', ''5'']])
       = mset (concat [[''*'', ''2'', ''3''], [''1'', ''4'', ''5'']])"
proof -
  let ?G = "[[''*'', ''2'', ''3''], [''1'', ''4'', ''5'']]"
  let ?T = "[[''1'', ''2'', ''3''], [''4'', ''5'', ''*'']]"
  let ?P = "\<lparr>mn_n = 2, mn_m = 3, from_grid = ?G, to_grid = ?T\<rparr>"
  let ?Q1 = "\<lparr>mn_n = 2, mn_m = 3, from_grid = [[''2'', ''*'', ''3''], [''1'', ''4'', ''5'']],
      to_grid = ?T\<rparr>"
  let ?Q2 = "\<lparr>mn_n = 2, mn_m = 3, from_grid = [[''1'', ''2'', ''3''], [''*'', ''4'', ''5'']],
      to_grid = ?T\<rparr>"
  have a: "MNPuzzle_init ?G ?T = Some ?P" by code_simp
  have b: "blank_count ?G = 1" by code_simp
  have e: "MNPuzzle_extensions ?P = Some [?Q1, ?Q2]" by code_simp
  from successors_keep_symbols [OF a b] e
  have 1: "\<forall>s \<in> set [?Q1, ?Q2].
           blank_count (from_grid s) = 1
         \<and> mn_n s = mn_n ?P \<and> mn_m s = mn_m ?P
         \<and> length (from_grid s) = mn_n ?P
         \<and> (\<forall>row \<in> set (from_grid s). length row = mn_m ?P)
         \<and> mset (concat (from_grid s)) = mset (concat ?G)"
    by auto
  have q: "?Q1 \<in> set [?Q1, ?Q2]" "?Q2 \<in> set [?Q1, ?Q2]" by simp_all
  from 1 q(1) have 2: "blank_count (from_grid ?Q1) = 1 \<and> mset (concat (from_grid ?Q1)) = mset (concat ?G)"
    by blast
  from 1 q(2) have 3: "blank_count (from_grid ?Q2) = 1 \<and> mset (concat (from_grid ?Q2)) = mset (concat ?G)"
    by blast
  from 2 3 e show ?thesis unfolding mn_puzzle.simps by blast
qed
end
